theory Spec2Isabelle
  imports Complex_Main "HOL-Library.Multiset" "HOL-Library.Code_Target_Nat"
begin

section \<open>The Bilibili videos widget of glance\<close>

text \<open>
  A shallow embedding of the widget in \<^verbatim>\<open>src/unnamed/part_000\<close> (package \<^verbatim>\<open>glance\<close>):
  \<^verbatim>\<open>initialize\<close>, \<^verbatim>\<open>update\<close>, \<^verbatim>\<open>getBilibiliFeedURL\<close>, \<^verbatim>\<open>sortByView\<close> and
  \<^verbatim>\<open>fetchBilibiliClassifyUploads\<close>.  The second file,
  \<^verbatim>\<open>src/internal/glance/widget-videos-bilibili.go\<close>, holds the same widget over a record
  type without a view count and with its ranking call commented out; where the two differ
  the definitions follow \<^verbatim>\<open>part_000\<close>, the only one that ranks by views.

  Everything the Go code takes from its surroundings is an argument of the model: the
  readings of \<^verbatim>\<open>time.Now()\<close> and the answer of the worker pool.
\<close>

subsection \<open>Formatting\<close>

text \<open>The verb \<^verbatim>\<open>%d\<close> of \<^verbatim>\<open>fmt.Sprintf\<close>: decimal digits, a minus sign for a negative number.\<close>

fun digits :: "nat \<Rightarrow> string" where
  "digits n =
     (if n < 10 then [''0123456789'' ! n]
      else digits (n div 10) @ [''0123456789'' ! (n mod 10)])"

declare digits.simps [simp del]

definition fmt_d :: "int \<Rightarrow> string" where
  "fmt_d i = (if i < 0 then CHR ''-'' # digits (nat (- i)) else digits (nat i))"

subsection \<open>Integer division of Go\<close>

text \<open>Go's \<^verbatim>\<open>/\<close> and \<^verbatim>\<open>%\<close> on integers truncate towards zero; the divisors below are
  positive constants.\<close>

definition quo :: "int \<Rightarrow> int \<Rightarrow> int" where
  "quo a b = sgn a * sgn b * (\<bar>a\<bar> div \<bar>b\<bar>)"

definition rem :: "int \<Rightarrow> int \<Rightarrow> int" where
  "rem a b = a - b * quo a b"

subsection \<open>float64 arithmetic\<close>

text \<open>
  A finite \<^verbatim>\<open>float64\<close> (IEEE 754 binary64) is modelled by the rational number it denotes.
  Every operation yields the exact result rounded to the nearest value with a 53-bit
  significand, ties to the even significand; the exponent of the last place is at least
  \<open>-1074\<close> (subnormal numbers).  Overflow to infinity is not modelled: every quantity below
  is bounded by \<open>2 ^ 63\<close>.
\<close>

definition pow2 :: "int \<Rightarrow> rat" where
  "pow2 e = (if 0 \<le> e then 2 ^ nat e else 1 / 2 ^ nat (- e))"

lemma pow2_pos: "0 < pow2 e"
  by (simp add: pow2_def)

lemma pow2_Suc: "pow2 (e + 1) = 2 * pow2 e"
proof (cases "0 \<le> e")
  case True
  then show ?thesis by (simp add: pow2_def nat_add_distrib)
next
  case False
  then have "nat (- e) = Suc (nat (- (e + 1)))" by simp
  then show ?thesis using False by (auto simp: pow2_def)
qed

text \<open>The exponent of the last place of \<open>x\<close>: the \<open>e\<close> with
  \<open>2 ^ 52 \<le> x / 2 ^ e < 2 ^ 53\<close>, searched upwards and then downwards from \<open>0\<close>.\<close>

function exp_up :: "rat \<Rightarrow> int \<Rightarrow> int" where
  "exp_up x e = (if 2 ^ 53 \<le> x / pow2 e then exp_up x (e + 1) else e)"
  by pat_completeness auto
termination
proof (relation "measure (\<lambda>(x, e). nat \<lfloor>x / pow2 e\<rfloor>)")
  show "wf (measure (\<lambda>(x, e). nat \<lfloor>x / pow2 e\<rfloor>))" by simp
next
  fix x :: rat and e :: int
  assume a: "2 ^ 53 \<le> x / pow2 e"
  let ?q = "x / pow2 e"
  have h: "x / pow2 (e + 1) = ?q / 2" by (simp add: pow2_Suc)
  have "?q / 2 \<le> ?q - 1" using a by simp
  then have "\<lfloor>?q / 2\<rfloor> \<le> \<lfloor>?q - 1\<rfloor>" by (rule floor_mono)
  then have "\<lfloor>?q / 2\<rfloor> < \<lfloor>?q\<rfloor>" by simp
  moreover have "0 < \<lfloor>?q\<rfloor>" using a by (simp add: less_floor_iff)
  ultimately show "((x, e + 1), (x, e)) \<in> measure (\<lambda>(x, e). nat \<lfloor>x / pow2 e\<rfloor>)"
    by (simp add: h)
qed

function exp_down :: "rat \<Rightarrow> int \<Rightarrow> int" where
  "exp_down x e = (if x / pow2 e < 2 ^ 52 \<and> - 1074 < e then exp_down x (e - 1) else e)"
  by pat_completeness auto
termination
  by (relation "measure (\<lambda>(x, e). nat (e + 1074))") auto

declare exp_up.simps [simp del] exp_down.simps [simp del]

definition f64_exp :: "rat \<Rightarrow> int" where
  "f64_exp x = exp_down \<bar>x\<bar> (exp_up \<bar>x\<bar> 0)"

definition round_even :: "rat \<Rightarrow> int" where
  "round_even q =
     (let f = \<lfloor>q\<rfloor>; r = q - of_int f
      in if r < 1 / 2 then f else if 1 / 2 < r then f + 1 else if even f then f else f + 1)"

definition f64 :: "rat \<Rightarrow> rat" where
  "f64 x = of_int (round_even (x / pow2 (f64_exp x))) * pow2 (f64_exp x)"

text \<open>The conversion \<^verbatim>\<open>float64(n)\<close> of an integer rounds; \<^verbatim>\<open>int(x)\<close> of a float
  discards the fraction (truncation towards zero).\<close>

definition float64 :: "int \<Rightarrow> rat" where
  "float64 n = f64 (of_int n)"

definition int_of_float64 :: "rat \<Rightarrow> int" where
  "int_of_float64 x = (if 0 \<le> x then \<lfloor>x\<rfloor> else \<lceil>x\<rceil>)"

definition f64_add :: "rat \<Rightarrow> rat \<Rightarrow> rat" where
  "f64_add x y = f64 (x + y)"

definition f64_div :: "rat \<Rightarrow> rat \<Rightarrow> rat" where
  "f64_div x y = f64 (x / y)"

subsection \<open>Package time\<close>

text \<open>
  A \<^verbatim>\<open>time.Time\<close> read from the wall clock: the seconds since the Unix epoch and the
  nanoseconds within the second (\<open>0 \<le> nsec < 10 ^ 9\<close>).  \<^verbatim>\<open>UTC()\<close> changes the location
  only, and drops the monotonic reading so that \<^verbatim>\<open>Sub\<close> compares wall-clock instants.
  A \<^verbatim>\<open>time.Duration\<close> is an \<^verbatim>\<open>int64\<close> count of nanoseconds; \<^verbatim>\<open>Sub\<close> saturates at
  its bounds.
\<close>

record Time =
  unix_sec :: int
  nsec :: int

definition Unix :: "Time \<Rightarrow> int" where
  "Unix t = unix_sec t"

definition minDuration :: int where
  "minDuration = - (2 ^ 63)"

definition maxDuration :: int where
  "maxDuration = 2 ^ 63 - 1"

definition Hour :: int where
  "Hour = 60 * 60 * 1000000000"

definition Sub :: "Time \<Rightarrow> Time \<Rightarrow> int" where
  "Sub t u =
     (let d = (unix_sec t - unix_sec u) * 1000000000 + (nsec t - nsec u)
      in if d < minDuration then minDuration else if maxDuration < d then maxDuration else d)"

text \<open>\<^verbatim>\<open>func (d Duration) Hours() float64\<close>:
  \<^verbatim>\<open>hour := d / Hour; nsec := d % Hour; return float64(hour) + float64(nsec)/(60*60*1e9)\<close>.\<close>

definition Hours :: "int \<Rightarrow> rat" where
  "Hours d =
     (let hour = quo d Hour; nsec = rem d Hour
      in f64_add (float64 hour) (f64_div (float64 nsec) (60 * 60 * 1000000000)))"

text \<open>\<^verbatim>\<open>time.Date(2019, time.March, 22, 0, 0, 0, 0, time.UTC)\<close>: day 17977 of the Unix era.\<close>

definition start :: Time where
  "start = \<lparr>unix_sec = 17977 * 86400, nsec = 0\<rparr>"

subsection \<open>The endpoint of a category\<close>

text \<open>
  \<^verbatim>\<open>getBilibiliFeedURL\<close> reads the clock once for \<^verbatim>\<open>wts\<close> and, in the weekly case, a
  second time for \<^verbatim>\<open>now\<close>; the two readings are the arguments \<open>now0\<close> and \<open>now1\<close>.
\<close>

definition period :: "Time \<Rightarrow> int" where
  "period now =
     (let duration = Sub now start;
          days = int_of_float64 (f64_div (Hours duration) 24)
      in quo days 7)"

definition getBilibiliFeedURL :: "Time \<Rightarrow> Time \<Rightarrow> string \<Rightarrow> string" where
  "getBilibiliFeedURL now0 now1 classify =
     (let wts = Unix now0
      in if classify = ''all'' then
           ''https://api.bilibili.com/x/web-interface/popular?ps=20&pn=1&wts='' @ fmt_d wts
         else if classify = ''weekly'' then
           ''https://api.bilibili.com/x/web-interface/popular/series/one?number=''
             @ fmt_d (period now1) @ ''&wts='' @ fmt_d wts
         else if classify = ''history'' then
           ''https://api.bilibili.com/x/web-interface/popular/precious?page_size=100&page=1&wts=''
             @ fmt_d wts
         else
           ''https://api.bilibili.com/x/web-interface/ranking/v2?rid=0&type=all&wts='' @ fmt_d wts)"

subsection \<open>Errors and panics\<close>

text \<open>
  Modelled from the spec: the sentinel errors \<^verbatim>\<open>errNoContent\<close> and \<^verbatim>\<open>errPartialContent\<close> are
  declared outside \<^verbatim>\<open>src/\<close>; they are the spec's NoContent and PartialContent, two distinct
  constructors here.  \<open>Errorf_w e s\<close> is \<^verbatim>\<open>fmt.Errorf("%w...", e, ...)\<close>: it wraps \<open>e\<close>, and
  \<open>s\<close> is the formatted text after the verb \<^verbatim>\<open>%w\<close>.  \<^verbatim>\<open>errors.Is\<close> follows the chain of
  wrapped errors.  The errors of the worker pool and of its tasks are only tested against
  \<^verbatim>\<open>nil\<close> and printed, so they are their message texts.
\<close>

datatype error = errNoContent | errPartialContent | Errorf_w error string

fun errors_Is :: "error \<Rightarrow> error \<Rightarrow> bool" where
  "errors_Is (Errorf_w e s) target = (Errorf_w e s = target \<or> errors_Is e target)"
| "errors_Is e target = (e = target)"

datatype panic = IndexOutOfRange | SliceBoundsOutOfRange

subsection \<open>Records\<close>

text \<open>An element of \<^verbatim>\<open>bilibiliFeedResponseJson.Data.List\<close>, its nested structs flattened.
  The \<^verbatim>\<open>int64\<close> fields are only stored, compared and printed.\<close>

record bilibiliFeedEntry =
  Pic :: string
  Title :: string
  Bvid :: string
  Owner_Mid :: int
  Owner_Name :: string
  Stats_View :: int
  Stats_Danmaku :: int

record bilibiliFeedResponseJson =
  Data_List :: "bilibiliFeedEntry list"

record videoBilibili =
  ThumbnailUrl :: string
  Title :: string
  Url :: string
  Author :: string
  AuthorUrl :: string
  Views :: int
  Danmaku :: int
  Desc :: string

type_synonym bilibiliVideoList = "videoBilibili list"

record Request =
  Method :: string
  URL :: string
  Header :: "string \<rightharpoonup> string"

text \<open>
  Modelled from the spec: \<^verbatim>\<open>widgetBase\<close> is declared outside \<^verbatim>\<open>src/\<close>.  Of its state the
  model keeps what a refresh surfaces: the error of a failed update and the notice (the
  warning) of a partial one.  Its title, cache duration and schedule, which the first line
  of \<^verbatim>\<open>initialize\<close> and the helper below also write, are read by no function of this
  file and are left out.
\<close>

record widgetBase =
  Error :: "error option"
  Notice :: "error option"

record videosBilibiliWidget =
  base :: widgetBase
  Videos :: bilibiliVideoList
  VideoUrlTemplate :: string
  Style :: string
  CollapseAfter :: int
  CollapseAfterRows :: int
  Classify :: "string list"
  Limit :: int
  IncludeShorts :: bool

subsection \<open>Ranking\<close>

text \<open>
  \<^verbatim>\<open>sort.Slice(v, less)\<close> of the standard library.  On a slice of at most 12 elements Go
  (since 1.19) runs the insertion sort below: element \<open>i\<close> moves left while it is \<open>lessf\<close>
  than its left neighbour.  On longer slices Go runs a pattern-defeating quicksort, whose
  result is sorted by \<open>lessf\<close> as well and can differ from the insertion sort in the order of
  elements neither of which is \<open>lessf\<close> than the other.  The model uses the insertion sort at
  every length, so above 12 videos it may order videos with equal view counts, and choose
  among them at the limit, otherwise than the code.  No theorem below states such an
  order, and the view counts are the same for every such order (\<open>views_of_any_ranking\<close>).
  \<open>bubble\<close> works on the sorted prefix in reverse, its head being the left neighbour.
\<close>

fun bubble :: "('a \<Rightarrow> 'a \<Rightarrow> bool) \<Rightarrow> 'a \<Rightarrow> 'a list \<Rightarrow> 'a list" where
  "bubble lessf x [] = [x]"
| "bubble lessf x (p # ps) = (if lessf x p then p # bubble lessf x ps else x # p # ps)"

definition sort_Slice :: "('a \<Rightarrow> 'a \<Rightarrow> bool) \<Rightarrow> 'a list \<Rightarrow> 'a list" where
  "sort_Slice lessf v = rev (foldl (\<lambda>prefix x. bubble lessf x prefix) [] v)"

definition sortByView :: "bilibiliVideoList \<Rightarrow> bilibiliVideoList" where
  "sortByView v = sort_Slice (\<lambda>vi vj. Views vi > Views vj) v"

subsection \<open>Fetching the categories\<close>

text \<open>Lines 138 to 146: one GET request per category, with the two headers.
  \<open>clock i\<close> are the two clock readings of \<^verbatim>\<open>getBilibiliFeedURL\<close> in iteration \<open>i\<close>.\<close>

definition newRequest :: "string \<Rightarrow> Request" where
  "newRequest feedUrl =
     \<lparr>Method = ''GET'', URL = feedUrl,
      Header = [''User-Agent'' \<mapsto>
          ''Mozilla/5.0 (Windows NT 10.0; Win64; x64) AppleWebKit/537.36 (KHTML, like Gecko) Chrome/91.0.4472.124 Safari/537.36'',
        ''Referer'' \<mapsto> ''https://www.bilibili.com/'']\<rparr>"

fun buildRequests :: "(nat \<Rightarrow> Time \<times> Time) \<Rightarrow> nat \<Rightarrow> string list \<Rightarrow> Request list" where
  "buildRequests clock i [] = []"
| "buildRequests clock i (c # classify) =
     newRequest (getBilibiliFeedURL (fst (clock i)) (snd (clock i)) c)
       # buildRequests clock (Suc i) classify"

text \<open>Lines 169 to 177: the record of one entry; \<^verbatim>\<open>Desc\<close> keeps its zero value.\<close>

definition toVideo :: "bilibiliFeedEntry \<Rightarrow> videoBilibili" where
  "toVideo v =
     \<lparr>ThumbnailUrl = Pic v,
      Title = bilibiliFeedEntry.Title v,
      Url = ''https://www.bilibili.com/video/'' @ Bvid v,
      Author = Owner_Name v,
      AuthorUrl = ''https://space.bilibili.com/'' @ fmt_d (Owner_Mid v),
      Views = Stats_View v,
      Danmaku = Stats_Danmaku v,
      Desc = []\<rparr>"

text \<open>
  Lines 157 to 179, the loop \<^verbatim>\<open>for i := range responses\<close>.  The three lists are consumed
  in step, so their heads are \<^verbatim>\<open>responses[i]\<close>, \<^verbatim>\<open>errs[i]\<close> and \<^verbatim>\<open>classify[i]\<close>; an index
  past the end of \<^verbatim>\<open>errs\<close>, or of \<^verbatim>\<open>classify\<close> when the failure is logged, panics.  The
  log line itself is not modelled.
\<close>

fun collect ::
  "bilibiliFeedResponseJson list \<Rightarrow> string option list \<Rightarrow> string list \<Rightarrow>
   bilibiliVideoList \<Rightarrow> nat \<Rightarrow> panic + bilibiliVideoList \<times> nat" where
  "collect [] errs classify videos failed = Inr (videos, failed)"
| "collect (response # responses) [] classify videos failed = Inl IndexOutOfRange"
| "collect (response # responses) (Some e # errs) [] videos failed = Inl IndexOutOfRange"
| "collect (response # responses) (Some e # errs) (c # classify) videos failed =
     collect responses errs classify videos (failed + 1)"
| "collect (response # responses) (None # errs) classify videos failed =
     collect responses errs (tl classify) (videos @ map toVideo (Data_List response)) failed"

text \<open>
  \<^verbatim>\<open>fetchBilibiliClassifyUploads\<close>.  \<open>workerPoolDo\<close> stands for
  \<^verbatim>\<open>workerPoolDo(newJob(decodeJsonFromRequestTask(defaultHTTPClient), requests).withWorkers(30))\<close>,
  whose code is outside \<^verbatim>\<open>src/\<close>: it answers the requests with the responses, the errors
  of the tasks and the error of the job.
\<close>

definition fetchBilibiliClassifyUploads ::
  "(Request list \<Rightarrow> bilibiliFeedResponseJson list \<times> string option list \<times> string option) \<Rightarrow>
   (nat \<Rightarrow> Time \<times> Time) \<Rightarrow> string list \<Rightarrow> string \<Rightarrow> bool \<Rightarrow>
   panic + bilibiliVideoList \<times> error option" where
  "fetchBilibiliClassifyUploads workerPoolDo clock classify videoUrlTemplate includeShorts =
     (let requests = buildRequests clock 0 classify;
          (responses, errs, err) = workerPoolDo requests
      in case err of
           Some e \<Rightarrow> Inr ([], Some (Errorf_w errNoContent ('': '' @ e)))
         | None \<Rightarrow>
             (case collect responses errs classify [] 0 of
                Inl p \<Rightarrow> Inl p
              | Inr (videos, failed) \<Rightarrow>
                  if length videos = 0 then Inr ([], Some errNoContent)
                  else
                    let videos = sortByView videos
                    in if failed > 0 then
                         Inr (videos, Some (Errorf_w errPartialContent
                           ('': missing videos from '' @ fmt_d (int failed) @ '' channels'')))
                       else Inr (videos, None)))"

subsection \<open>The widget\<close>

text \<open>\<^verbatim>\<open>initialize\<close>, lines 33 to 45; it returns the widget and the \<^verbatim>\<open>nil\<close> error.\<close>

definition initialize :: "videosBilibiliWidget \<Rightarrow> videosBilibiliWidget \<times> error option" where
  "initialize widget =
     (let widget = (if Limit widget \<le> 0 then widget\<lparr>Limit := 25\<rparr> else widget);
          widget = (if CollapseAfterRows widget = 0 \<or> CollapseAfterRows widget < - 1
                    then widget\<lparr>CollapseAfterRows := 4\<rparr> else widget);
          widget = (if CollapseAfter widget = 0 \<or> CollapseAfter widget < - 1
                    then widget\<lparr>CollapseAfter := 7\<rparr> else widget)
      in (widget, None))"

text \<open>
  Modelled from the spec: \<^verbatim>\<open>canContinueUpdateAfterHandlingErr\<close> is a method of
  \<^verbatim>\<open>widgetBase\<close>, outside \<^verbatim>\<open>src/\<close>.  The spec's refresh: on Empty the stored result is
  left untouched and the failure is surfaced; on Partial the new result replaces the
  stored one and the failure count is surfaced as a warning, not an error; on Complete
  the result is replaced with no diagnostic.  So the update continues exactly when there
  is no error or the error is a partial-content one.
\<close>

definition canContinueUpdateAfterHandlingErr ::
  "widgetBase \<Rightarrow> error option \<Rightarrow> bool \<times> widgetBase" where
  "canContinueUpdateAfterHandlingErr w err =
     (case err of
        None \<Rightarrow> (True, w\<lparr>Error := None, Notice := None\<rparr>)
      | Some e \<Rightarrow>
          if errors_Is e errPartialContent then (True, w\<lparr>Error := None, Notice := Some e\<rparr>)
          else (False, w\<lparr>Error := Some e, Notice := None\<rparr>))"

text \<open>\<^verbatim>\<open>update\<close>, lines 48 to 60.  The context argument is not used by the source.  The
  slice expression \<^verbatim>\<open>videos[:widget.Limit]\<close> panics for a negative limit.\<close>

definition update ::
  "(Request list \<Rightarrow> bilibiliFeedResponseJson list \<times> string option list \<times> string option) \<Rightarrow>
   (nat \<Rightarrow> Time \<times> Time) \<Rightarrow> videosBilibiliWidget \<Rightarrow> panic + videosBilibiliWidget" where
  "update workerPoolDo clock widget =
     (case fetchBilibiliClassifyUploads workerPoolDo clock
             (Classify widget) (VideoUrlTemplate widget) (IncludeShorts widget) of
        Inl p \<Rightarrow> Inl p
      | Inr (videos, err) \<Rightarrow>
          let (continue, b) = canContinueUpdateAfterHandlingErr (base widget) err;
              widget = widget\<lparr>base := b\<rparr>
          in if \<not> continue then Inr widget
             else if int (length videos) > Limit widget then
               (if Limit widget < 0 then Inl SliceBoundsOutOfRange
                else Inr (widget\<lparr>Videos := take (nat (Limit widget)) videos\<rparr>))
             else Inr (widget\<lparr>Videos := videos\<rparr>))"

subsection \<open>Quantities the claims speak of\<close>

text \<open>The entries of the categories that succeeded, in the order of the categories, and the
  number of categories that failed: what the loop is expected to leave in \<^verbatim>\<open>videos\<close> and
  \<^verbatim>\<open>failed\<close>.\<close>

definition succeededEntries ::
  "bilibiliFeedResponseJson list \<Rightarrow> string option list \<Rightarrow> bilibiliVideoList" where
  "succeededEntries responses errs =
     concat (map (\<lambda>(response, e). if e = None then map toVideo (Data_List response) else [])
       (zip responses errs))"

definition failures :: "string option list \<Rightarrow> nat" where
  "failures errs = length (filter (\<lambda>e. e \<noteq> None) errs)"

text \<open>The number of whole 7-day periods between the reference date and a clock reading, in
  exact integer arithmetic on the nanoseconds: what the spec asks of the period index.\<close>

definition wholePeriods :: "Time \<Rightarrow> int" where
  "wholePeriods now = quo (Sub now start) (7 * 24 * Hour)"



subsection \<open>Example inputs\<close>

text \<open>Two widgets as the configuration may leave them: one with both thresholds at -1 and
  no limit, one with a zero and two negative settings.\<close>

definition widget0 :: videosBilibiliWidget where
  "widget0 =
     \<lparr>base = \<lparr>Error = None, Notice = None\<rparr>, Videos = [], VideoUrlTemplate = [],
      Style = [], CollapseAfter = - 1, CollapseAfterRows = - 1, Classify = [''history''],
      Limit = 0, IncludeShorts = False\<rparr>"

definition widget_unset :: videosBilibiliWidget where
  "widget_unset = widget0\<lparr>CollapseAfter := 0, CollapseAfterRows := - 2, Limit := - 3\<rparr>"

text \<open>The timestamp of the comment above \<^verbatim>\<open>fetchBilibiliClassifyUploads\<close> for the ranking
  endpoint.\<close>

definition t_comment :: Time where
  "t_comment = \<lparr>unix_sec = 1742301628, nsec = 0\<rparr>"

text \<open>Entries, a clock and worker-pool answers for the instances below.  The answers do not
  depend on the requests.\<close>

definition entry :: "string \<Rightarrow> int \<Rightarrow> bilibiliFeedEntry" where
  "entry bvid views =
     \<lparr>Pic = ''https://i0.hdslb.com/cover.jpg'', Title = ''title'', Bvid = bvid, Owner_Mid = 42,
      Owner_Name = ''up'', Stats_View = views, Stats_Danmaku = 7\<rparr>"

definition clock0 :: "nat \<Rightarrow> Time \<times> Time" where
  "clock0 i = (t_comment, t_comment)"

definition pool_history_empty ::
  "Request list \<Rightarrow> bilibiliFeedResponseJson list \<times> string option list \<times> string option" where
  "pool_history_empty requests = ([\<lparr>Data_List = []\<rparr>], [None], None)"

definition pool_all_failed ::
  "Request list \<Rightarrow> bilibiliFeedResponseJson list \<times> string option list \<times> string option" where
  "pool_all_failed requests =
     ([\<lparr>Data_List = []\<rparr>, \<lparr>Data_List = []\<rparr>], [Some ''timeout'', Some ''bad json''], None)"

definition pool_failed_and_empty ::
  "Request list \<Rightarrow> bilibiliFeedResponseJson list \<times> string option list \<times> string option" where
  "pool_failed_and_empty requests =
     ([\<lparr>Data_List = []\<rparr>, \<lparr>Data_List = []\<rparr>], [None, Some ''timeout''], None)"

definition pool_weekly_failed ::
  "Request list \<Rightarrow> bilibiliFeedResponseJson list \<times> string option list \<times> string option" where
  "pool_weekly_failed requests =
     ([\<lparr>Data_List = [entry ''BV1'' 100, entry ''BV2'' 5, entry ''BV3'' 300]\<rparr>, \<lparr>Data_List = []\<rparr>],
      [None, Some ''timeout''], None)"

definition pool_all_ok ::
  "Request list \<Rightarrow> bilibiliFeedResponseJson list \<times> string option list \<times> string option" where
  "pool_all_ok requests =
     ([\<lparr>Data_List = [entry ''BV1'' 100, entry ''BV2'' 5]\<rparr>, \<lparr>Data_List = [entry ''BV3'' 300]\<rparr>],
      [None, None], None)"

definition pool_history_no_entries ::
  "Request list \<Rightarrow> bilibiliFeedResponseJson list \<times> string option list \<times> string option" where
  "pool_history_no_entries requests =
     ([\<lparr>Data_List = [entry ''BV1'' 100, entry ''BV2'' 5, entry ''BV3'' 300]\<rparr>, \<lparr>Data_List = []\<rparr>,
       \<lparr>Data_List = []\<rparr>],
      [None, None, Some ''timeout''], None)"

definition widget1 :: videosBilibiliWidget where
  "widget1 =
     \<lparr>base = \<lparr>Error = None, Notice = None\<rparr>, Videos = [toVideo (entry ''BV0'' 1)],
      VideoUrlTemplate = [], Style = [], CollapseAfter = 7, CollapseAfterRows = 4,
      Classify = [''all'', ''weekly''], Limit = 2, IncludeShorts = False\<rparr>"

text \<open>Clock readings: the timestamps of the comments above
  \<^verbatim>\<open>fetchBilibiliClassifyUploads\<close> for the weekly and the popular endpoint, one week after
  the first, one nanosecond before 2026-10-23 00:00:00 UTC, the end of the 396th period,
  and the start of that same second.\<close>

definition t_weekly :: Time where
  "t_weekly = \<lparr>unix_sec = 1742227080, nsec = 0\<rparr>"



definition t_before_boundary :: Time where
  "t_before_boundary = \<lparr>unix_sec = 1792713599, nsec = 999999999\<rparr>"


section \<open>Lemmas\<close>

subsection \<open>Formatting and the loop\<close>

lemma digits_lt10: "n < 10 \<Longrightarrow> digits n = [''0123456789'' ! n]"
  by (subst digits.simps) simp

lemma digits_ge10: "10 \<le> n \<Longrightarrow> digits n = digits (n div 10) @ [''0123456789'' ! (n mod 10)]"
  by (subst digits.simps) simp

lemma collect_aligned:
  "length errs = length responses \<Longrightarrow> length classify = length responses \<Longrightarrow>
   collect responses errs classify videos failed =
     Inr (videos @ succeededEntries responses errs, failed + failures errs)"
proof (induction responses errs classify videos failed rule: collect.induct)
  case (1 errs classify videos failed)
  then show ?case by (simp add: succeededEntries_def failures_def)
next
  case (2 response responses classify videos failed)
  then show ?case by simp
next
  case (3 response responses e errs videos failed)
  then show ?case by simp
next
  case (4 response responses e errs c classify videos failed)
  then show ?case by (simp add: succeededEntries_def failures_def)
next
  case (5 response responses errs classify videos failed)
  then have "length (tl classify) = length responses" by simp
  with 5 show ?case by (simp add: succeededEntries_def failures_def)
qed

lemma collect_skips_empty:
  assumes "length es1 = length rs1" and "length cs1 = length rs1" and "Data_List r = []"
  shows "collect (rs1 @ r # rs2) (es1 @ None # es2) (cs1 @ c # cs2) videos failed =
         collect (rs1 @ rs2) (es1 @ es2) (cs1 @ cs2) videos failed"
  using assms
proof (induction rs1 arbitrary: es1 cs1 videos failed)
  case Nil
  then show ?case by simp
next
  case (Cons r1 rs1)
  then obtain e1 es1' c1 cs1' where [simp]: "es1 = e1 # es1'" "cs1 = c1 # cs1'"
    by (cases es1; cases cs1) auto
  from Cons.prems have len: "length es1' = length rs1" "length cs1' = length rs1" by simp_all
  show ?case
    using Cons.IH [OF len Cons.prems(3)] by (cases e1) simp_all
qed

lemma fetch_aligned:
  assumes "workerPoolDo (buildRequests clock 0 classify) = (responses, errs, None)"
    and "length errs = length responses" and "length classify = length responses"
  shows "fetchBilibiliClassifyUploads workerPoolDo clock classify videoUrlTemplate includeShorts =
     (if succeededEntries responses errs = [] then Inr ([], Some errNoContent)
      else if 0 < failures errs then
        Inr (sortByView (succeededEntries responses errs),
          Some (Errorf_w errPartialContent
            ('': missing videos from '' @ fmt_d (int (failures errs)) @ '' channels'')))
      else Inr (sortByView (succeededEntries responses errs), None))"
  using assms by (simp add: fetchBilibiliClassifyUploads_def collect_aligned)

lemma mset_bubble: "mset (bubble lessf x ps) = add_mset x (mset ps)"
  by (induction ps) auto

lemma set_bubble: "set (bubble lessf x ps) = insert x (set ps)"
  by (induction ps) auto

lemma mset_foldl_bubble:
  "mset (foldl (\<lambda>prefix x. bubble lessf x prefix) acc v) = mset acc + mset v"
  by (induction v arbitrary: acc) (auto simp: mset_bubble)

lemma mset_sort_Slice: "mset (sort_Slice lessf v) = mset v"
  by (simp add: sort_Slice_def mset_foldl_bubble)

lemma sorted_bubble_views:
  "sorted_wrt (\<lambda>a b. Views a \<le> Views b) ps \<Longrightarrow>
   sorted_wrt (\<lambda>a b. Views a \<le> Views b) (bubble (\<lambda>vi vj. Views vi > Views vj) x ps)"
  by (induction ps) (auto simp: set_bubble)

lemma sorted_foldl_bubble_views:
  "sorted_wrt (\<lambda>a b. Views a \<le> Views b) acc \<Longrightarrow>
   sorted_wrt (\<lambda>a b. Views a \<le> Views b)
     (foldl (\<lambda>prefix x. bubble (\<lambda>vi vj. Views vi > Views vj) x prefix) acc v)"
  by (induction v arbitrary: acc) (auto simp: sorted_bubble_views)

lemma sorted_sortByView: "sorted_wrt (\<lambda>a b. Views a \<ge> Views b) (sortByView v)"
  using sorted_foldl_bubble_views [of "[]" v]
  by (simp add: sortByView_def sort_Slice_def sorted_wrt_rev)

lemma mset_sortByView: "mset (sortByView v) = mset v"
  by (simp add: sortByView_def mset_sort_Slice)

lemma succeededEntries_Nil_iff:
  "length errs = length responses \<Longrightarrow>
   succeededEntries responses errs = [] \<longleftrightarrow>
     (\<forall>(response, e) \<in> set (zip responses errs). e = None \<longrightarrow> Data_List response = [])"
  by (auto simp: succeededEntries_def split: if_splits)

lemma failures_0_iff: "failures errs = 0 \<longleftrightarrow> (\<forall>e \<in> set errs. e = None)"
  by (auto simp: failures_def filter_empty_conv)

lemma errors_Is_sentinels:
  "errors_Is e errNoContent \<Longrightarrow> \<not> errors_Is e errPartialContent"
  by (induction e) auto

subsection \<open>Rounding to float64\<close>

lemma pow2_powi: "pow2 e = 2 powi e"
  by (simp add: pow2_def power_int_def power_one_over inverse_eq_divide)

lemma pow2_add: "pow2 (a + b) = pow2 a * pow2 b"
  by (simp add: pow2_powi power_int_add)

lemma pow2_le: "a \<le> b \<Longrightarrow> pow2 a \<le> pow2 b"
  by (simp add: pow2_powi power_int_increasing)

lemma div_pow2_pred: "x / pow2 (e - 1) = 2 * (x / pow2 e)"
  using pow2_Suc [of "e - 1"] by simp

lemma div_pow2_succ: "x / pow2 (e + 1) = x / pow2 e / 2"
  by (simp add: pow2_Suc)

lemma exp_up_spec:
  "e0 \<le> exp_up x e0 \<and> x / pow2 (exp_up x e0) < 2 ^ 53 \<and>
   (e0 < exp_up x e0 \<longrightarrow> 2 ^ 52 \<le> x / pow2 (exp_up x e0))"
proof (induction x e0 rule: exp_up.induct)
  case (1 x e)
  show ?case
  proof (cases "2 ^ 53 \<le> x / pow2 e")
    case True
    then have eq: "exp_up x e = exp_up x (e + 1)" by (subst exp_up.simps) simp
    have first: "2 ^ 52 \<le> x / pow2 (e + 1)" using True by (simp add: div_pow2_succ)
    from 1 [OF True] first show ?thesis
      unfolding eq by (cases "e + 1 = exp_up x (e + 1)") auto
  next
    case False
    then have "exp_up x e = e" by (subst exp_up.simps) simp
    with False show ?thesis by simp
  qed
qed

lemma exp_down_spec:
  "- 1074 \<le> e0 \<Longrightarrow> x / pow2 e0 < 2 ^ 53 \<Longrightarrow>
   - 1074 \<le> exp_down x e0 \<and> exp_down x e0 \<le> e0 \<and> x / pow2 (exp_down x e0) < 2 ^ 53 \<and>
   (2 ^ 52 \<le> x / pow2 (exp_down x e0) \<or> exp_down x e0 = - 1074)"
proof (induction x e0 rule: exp_down.induct)
  case (1 x e)
  show ?case
  proof (cases "x / pow2 e < 2 ^ 52 \<and> - 1074 < e")
    case True
    then have eq: "exp_down x e = exp_down x (e - 1)" by (subst exp_down.simps) simp
    have "x / pow2 (e - 1) < 2 ^ 53" using True by (simp add: div_pow2_pred)
    moreover have "- 1074 \<le> e - 1" using True by simp
    ultimately show ?thesis using 1(1) [OF True] unfolding eq by simp
  next
    case False
    then have "exp_down x e = e" by (subst exp_down.simps) auto
    with False 1(2,3) show ?thesis by auto
  qed
qed

lemma f64_exp_spec:
  "- 1074 \<le> f64_exp x \<and> \<bar>x\<bar> / pow2 (f64_exp x) < 2 ^ 53 \<and>
   (2 ^ 52 \<le> \<bar>x\<bar> / pow2 (f64_exp x) \<or> f64_exp x = - 1074)"
proof -
  have "0 \<le> exp_up \<bar>x\<bar> 0" and "\<bar>x\<bar> / pow2 (exp_up \<bar>x\<bar> 0) < 2 ^ 53"
    using exp_up_spec [of 0 "\<bar>x\<bar>"] by simp_all
  then show ?thesis
    using exp_down_spec [of "exp_up \<bar>x\<bar> 0" "\<bar>x\<bar>"] by (simp add: f64_exp_def)
qed

lemma f64_exp_unique:
  assumes "- 1074 \<le> e" and "2 ^ 52 \<le> \<bar>x\<bar> / pow2 e" and "\<bar>x\<bar> / pow2 e < 2 ^ 53"
  shows "f64_exp x = e"
proof (rule ccontr)
  assume ne: "f64_exp x \<noteq> e"
  let ?f = "f64_exp x"
  note s = f64_exp_spec [of x]
  have pos: "0 < \<bar>x\<bar>" using assms(2) pow2_pos [of e]
    by (metis divide_eq_0_iff less_le not_less zero_less_power zero_less_numeral abs_ge_zero
        order_less_le_trans)
  show False
  proof (cases "?f < e")
    case True
    then have "pow2 (?f + 1) \<le> pow2 e" by (intro pow2_le) simp
    then have "2 * pow2 ?f \<le> pow2 e" by (simp add: pow2_Suc)
    then have "2 * pow2 ?f * 2 ^ 52 \<le> pow2 e * (\<bar>x\<bar> / pow2 e)"
      using assms(2) pow2_pos [of ?f] by (intro mult_mono) simp_all
    then have "pow2 ?f * 2 ^ 53 \<le> \<bar>x\<bar>" using pow2_pos [of e] by simp
    then have "2 ^ 53 \<le> \<bar>x\<bar> / pow2 ?f" using pow2_pos [of ?f] by (simp add: pos_le_divide_eq mult.commute)
    with s show False by simp
  next
    case False
    with ne have gt: "e < ?f" by simp
    then have "?f \<noteq> - 1074" using assms(1) by simp
    with s have lo: "2 ^ 52 \<le> \<bar>x\<bar> / pow2 ?f" by simp
    from gt have "pow2 (e + 1) \<le> pow2 ?f" by (intro pow2_le) simp
    then have le: "2 * pow2 e \<le> pow2 ?f" by (simp add: pow2_Suc)
    have "\<bar>x\<bar> < 2 ^ 53 * pow2 e" using assms(3) pow2_pos [of e] by (simp add: pos_divide_less_eq)
    also have "\<dots> = 2 ^ 52 * (2 * pow2 e)" by simp
    also have "\<dots> \<le> 2 ^ 52 * pow2 ?f" using le by (intro mult_left_mono) simp_all
    finally have "\<bar>x\<bar> / pow2 ?f < 2 ^ 52" using pow2_pos [of ?f] by (simp add: pos_divide_less_eq)
    with lo show False by simp
  qed
qed

lemma f64_at:
  assumes "- 1074 \<le> e" and "2 ^ 52 \<le> \<bar>x\<bar> / pow2 e" and "\<bar>x\<bar> / pow2 e < 2 ^ 53"
  shows "f64 x = of_int (round_even (x / pow2 e)) * pow2 e"
  by (simp add: f64_def f64_exp_unique [OF assms])

lemma round_even_of_int: "round_even (of_int n) = n"
  by (simp add: round_even_def)

lemma round_even_cases: "round_even q = \<lfloor>q\<rfloor> \<or> round_even q = \<lfloor>q\<rfloor> + 1"
  by (simp add: round_even_def Let_def)

lemma round_even_mono:
  assumes "q \<le> q'"
  shows "round_even q \<le> round_even q'"
proof (cases "\<lfloor>q\<rfloor> = \<lfloor>q'\<rfloor>")
  case True
  then have "q - of_int \<lfloor>q\<rfloor> \<le> q' - of_int \<lfloor>q'\<rfloor>" using assms by simp
  then show ?thesis using True by (auto simp: round_even_def Let_def)
next
  case False
  then have "\<lfloor>q\<rfloor> + 1 \<le> \<lfloor>q'\<rfloor>" using floor_mono [OF assms] by simp
  moreover have "round_even q \<le> \<lfloor>q\<rfloor> + 1" using round_even_cases [of q] by auto
  moreover have "\<lfloor>q'\<rfloor> \<le> round_even q'" using round_even_cases [of q'] by auto
  ultimately show ?thesis by simp
qed

lemma round_even_ge: "of_int n \<le> q \<Longrightarrow> n \<le> round_even q"
  using round_even_mono [of "of_int n" q] by (simp add: round_even_of_int)

lemma round_even_le: "q \<le> of_int n \<Longrightarrow> round_even q \<le> n"
  using round_even_mono [of q "of_int n"] by (simp add: round_even_of_int)

lemma f64_0: "f64 0 = 0"
  by (simp add: f64_def round_even_def)

text \<open>A number with a significand below \<open>2 ^ 53\<close> and an exponent of at least \<open>-1074\<close> is a
  \<^verbatim>\<open>float64\<close>: rounding leaves it as it is.\<close>

lemma f64_exact:
  assumes "\<bar>n\<bar> < 2 ^ 53" and "- 1074 \<le> k"
  shows "f64 (of_int n * pow2 k) = of_int n * pow2 k"
proof (cases "n = 0")
  case True
  then show ?thesis by (simp add: f64_0)
next
  case False
  define x :: rat where "x = of_int n * pow2 k"
  define e where "e = f64_exp x"
  note s = f64_exp_spec [of x, folded e_def]
  have ax: "\<bar>x\<bar> = of_int \<bar>n\<bar> * pow2 k" using pow2_pos [of k] by (simp add: x_def abs_mult)
  have le: "e \<le> k"
  proof (rule ccontr)
    assume "\<not> e \<le> k"
    then have gt: "k < e" by simp
    then have "e \<noteq> - 1074" using assms(2) by simp
    with s have lo: "2 ^ 52 \<le> \<bar>x\<bar> / pow2 e" by simp
    from gt have "pow2 (k + 1) \<le> pow2 e" by (intro pow2_le) simp
    then have "2 * pow2 k \<le> pow2 e" by (simp add: pow2_Suc)
    moreover have "of_int \<bar>n\<bar> < (2 ^ 53 :: rat)" using assms(1)
      by (metis of_int_less_iff of_int_numeral of_int_power)
    ultimately have "of_int \<bar>n\<bar> * (2 * pow2 k) < 2 ^ 53 * pow2 e"
      using pow2_pos [of k] by (intro mult_less_le_imp_less) simp_all
    then have "\<bar>x\<bar> < 2 ^ 52 * pow2 e" by (simp add: ax mult.commute)
    then have "\<bar>x\<bar> / pow2 e < 2 ^ 52" using pow2_pos [of e] by (simp add: pos_divide_less_eq)
    with lo show False by simp
  qed
  have "pow2 k = pow2 (k - e) * pow2 e" using pow2_add [of "k - e" e] by simp
  also have "pow2 (k - e) = 2 ^ nat (k - e)" using le by (simp add: pow2_def)
  finally have pk: "pow2 k = 2 ^ nat (k - e) * pow2 e" .
  have xe: "x = of_int (n * 2 ^ nat (k - e)) * pow2 e"
    by (simp add: x_def pk)
  have "x / pow2 e = of_int (n * 2 ^ nat (k - e))"
    using pow2_pos [of e] by (simp add: xe)
  then have "round_even (x / pow2 e) = n * 2 ^ nat (k - e)"
    by (simp only: round_even_of_int)
  then have "f64 x = of_int (n * 2 ^ nat (k - e)) * pow2 e"
    by (simp add: f64_def e_def)
  with xe have "f64 x = x" by metis
  then show ?thesis by (simp only: x_def)
qed

lemma f64_exact_int: "\<bar>n\<bar> < 2 ^ 53 \<Longrightarrow> f64 (of_int n) = of_int n"
  using f64_exact [of n 0] by (simp add: pow2_def)

lemma f64_exp_mono:
  assumes "0 \<le> x" and "x \<le> y"
  shows "f64_exp x \<le> f64_exp y"
proof (rule ccontr)
  assume "\<not> f64_exp x \<le> f64_exp y"
  then have gt: "f64_exp y < f64_exp x" by simp
  note sx = f64_exp_spec [of x] and sy = f64_exp_spec [of y]
  from gt sy have "f64_exp x \<noteq> - 1074" by simp
  with sx have lo: "2 ^ 52 \<le> x / pow2 (f64_exp x)" using assms(1) by simp
  from gt have "pow2 (f64_exp y + 1) \<le> pow2 (f64_exp x)" by (intro pow2_le) simp
  then have le: "2 * pow2 (f64_exp y) \<le> pow2 (f64_exp x)" by (simp add: pow2_Suc)
  have "y < 2 ^ 53 * pow2 (f64_exp y)"
    using sy assms pow2_pos [of "f64_exp y"] by (simp add: pos_divide_less_eq)
  also have "\<dots> = 2 ^ 52 * (2 * pow2 (f64_exp y))" by simp
  also have "\<dots> \<le> 2 ^ 52 * pow2 (f64_exp x)" using le by (intro mult_left_mono) simp_all
  finally have "y / pow2 (f64_exp x) < 2 ^ 52"
    using pow2_pos [of "f64_exp x"] by (simp add: pos_divide_less_eq)
  moreover have "x / pow2 (f64_exp x) \<le> y / pow2 (f64_exp x)"
    using assms(2) pow2_pos [of "f64_exp x"] by (simp add: divide_right_mono)
  ultimately show False using lo by simp
qed

lemma f64_mono:
  assumes "0 \<le> x" and "x \<le> y"
  shows "f64 x \<le> f64 y"
proof (cases "f64_exp x = f64_exp y")
  case True
  have "x / pow2 (f64_exp y) \<le> y / pow2 (f64_exp y)"
    using assms(2) pow2_pos [of "f64_exp y"] by (simp add: divide_right_mono)
  then have "round_even (x / pow2 (f64_exp y)) \<le> round_even (y / pow2 (f64_exp y))"
    by (rule round_even_mono)
  then show ?thesis
    using pow2_pos [of "f64_exp y"] by (simp add: f64_def True mult_right_mono)
next
  case False
  let ?ex = "f64_exp x" and ?ey = "f64_exp y"
  from False f64_exp_mono [OF assms] have lt: "?ex < ?ey" by simp
  note sx = f64_exp_spec [of x] and sy = f64_exp_spec [of y]
  have y0: "0 \<le> y" using assms by simp
  from lt sx have "?ey \<noteq> - 1074" by simp
  with sy y0 have "of_int (2 ^ 52) \<le> y / pow2 ?ey" by simp
  then have "2 ^ 52 \<le> round_even (y / pow2 ?ey)" by (rule round_even_ge)
  then have "(2 ^ 52 :: rat) \<le> of_int (round_even (y / pow2 ?ey))"
    by (metis of_int_le_iff of_int_numeral of_int_power)
  then have lower: "2 ^ 52 * pow2 ?ey \<le> f64 y"
    using pow2_pos [of ?ey] by (simp add: f64_def mult_right_mono)
  have "x / pow2 ?ex \<le> of_int (2 ^ 53)" using sx assms(1) by simp
  then have "round_even (x / pow2 ?ex) \<le> 2 ^ 53" by (rule round_even_le)
  then have "of_int (round_even (x / pow2 ?ex)) \<le> (2 ^ 53 :: rat)"
    by (metis of_int_le_iff of_int_numeral of_int_power)
  then have "f64 x \<le> 2 ^ 53 * pow2 ?ex"
    using pow2_pos [of ?ex] by (simp add: f64_def mult_right_mono)
  also have "\<dots> = 2 ^ 52 * (2 * pow2 ?ex)" by simp
  also have "\<dots> = 2 ^ 52 * pow2 (?ex + 1)" by (simp add: pow2_Suc)
  also have "\<dots> \<le> 2 ^ 52 * pow2 ?ey" using lt by (intro mult_left_mono pow2_le) simp_all
  also note lower
  finally show ?thesis .
qed

subsection \<open>The period index\<close>

lemma quo_nonneg: "0 \<le> a \<Longrightarrow> 0 < b \<Longrightarrow> quo a b = a div b"
  by (cases "a = 0") (simp_all add: quo_def)

lemma f64_between:
  assumes "\<bar>lo\<bar> < 2 ^ 53" and "- 1074 \<le> klo" and "\<bar>hi\<bar> < 2 ^ 53" and "- 1074 \<le> khi"
    and "0 \<le> of_int lo * pow2 klo" and "of_int lo * pow2 klo \<le> x" and "0 \<le> x"
    and "x \<le> of_int hi * pow2 khi"
  shows "of_int lo * pow2 klo \<le> f64 x \<and> f64 x \<le> of_int hi * pow2 khi"
  using f64_mono [OF assms(5,6)] f64_mono [OF assms(7,8)]
  by (simp add: f64_exact [OF assms(1,2)] f64_exact [OF assms(3,4)])

lemma Hours_whole_seconds:
  assumes "0 \<le> s" and "s \<le> 9223372036"
  shows "of_int (s div 3600) \<le> Hours (s * 1000000000) \<and>
         Hours (s * 1000000000) \<le> of_int (s div 3600) + 4095 / 4096"
proof -
  define H where "H = s div 3600"
  define r where "r = s mod 3600"
  have H0: "0 \<le> H" and Hb: "H \<le> 2562047" using assms by (simp_all add: H_def)
  have r0: "0 \<le> r" and rb: "r \<le> 3599" by (simp_all add: r_def)
  have q: "quo (s * 1000000000) Hour = H"
    using assms(1) by (simp add: quo_nonneg Hour_def H_def)
  have sd: "s = 3600 * H + r" by (simp add: H_def r_def)
  have "rem (s * 1000000000) Hour = s * 1000000000 - Hour * H" by (simp only: rem_def q)
  also have "\<dots> = r * 1000000000" by (subst sd) (simp add: Hour_def)
  finally have rm: "rem (s * 1000000000) Hour = r * 1000000000" .
  have fH: "float64 H = of_int H"
    unfolding float64_def using H0 Hb by (intro f64_exact_int) simp
  have fr: "float64 (r * 1000000000) = of_int (r * 1000000000)"
    unfolding float64_def using r0 rb by (intro f64_exact_int) simp
  define f where "f = f64_div (float64 (r * 1000000000)) (60 * 60 * 1000000000)"
  have arg: "of_int (r * 1000000000) / (60 * 60 * 1000000000) = (of_int r / 3600 :: rat)"
    by simp
  have "of_int 0 * pow2 0 \<le> f64 (of_int r / 3600) \<and> f64 (of_int r / 3600) \<le> of_int 4095 * pow2 (- 12)"
  proof (rule f64_between)
    show "(of_int r / 3600 :: rat) \<le> of_int 4095 * pow2 (- 12)"
    proof -
      have "(of_int r :: rat) \<le> 3599" using rb by (metis of_int_le_iff of_int_numeral)
      then show ?thesis by (simp add: pow2_def)
    qed
    show "(0 :: rat) \<le> of_int r / 3600" using r0 by simp
    then show "(of_int 0 * pow2 0 :: rat) \<le> of_int r / 3600" by simp
  qed simp_all
  then have f0: "0 \<le> f" and f1: "f \<le> 4095 / 4096"
    by (simp_all add: f_def f64_div_def fr arg pow2_def)
  have Hr: "(0 :: rat) \<le> of_int H" using H0 by simp
  have "of_int H * pow2 0 \<le> f64 (of_int H + f) \<and>
        f64 (of_int H + f) \<le> of_int (4096 * H + 4095) * pow2 (- 12)"
  proof (rule f64_between)
    show "\<bar>H\<bar> < 2 ^ 53" using H0 Hb by simp
    show "\<bar>4096 * H + 4095\<bar> < 2 ^ 53" using H0 Hb by simp
    show "(0 :: rat) \<le> of_int H * pow2 0" using Hr by (simp add: pow2_def)
    show "of_int H * pow2 0 \<le> of_int H + f" using f0 by (simp add: pow2_def)
    show "0 \<le> of_int H + f" using f0 Hr by simp
    show "of_int H + f \<le> of_int (4096 * H + 4095) * pow2 (- 12)"
      using f1 by (simp add: pow2_def)
  qed simp_all
  then have "of_int H \<le> f64_add (float64 H) f \<and> f64_add (float64 H) f \<le> of_int H + 4095 / 4096"
    by (simp add: f64_add_def fH pow2_def)
  then show ?thesis
    by (simp add: Hours_def q rm f_def H_def Let_def)
qed

lemma days_whole_seconds:
  assumes "0 \<le> s" and "s \<le> 9223372036"
  shows "int_of_float64 (f64_div (Hours (s * 1000000000)) 24) = s div 86400"
proof -
  define H where "H = s div 3600"
  define D where "D = H div 24"
  define h where "h = Hours (s * 1000000000)"
  have H0: "0 \<le> H" and Hb: "H \<le> 2562047" using assms by (simp_all add: H_def)
  have D0: "0 \<le> D" and Db: "D \<le> 106751" using H0 Hb by (simp_all add: D_def)
  have HD: "24 * D \<le> H" and HD': "H \<le> 24 * D + 23" by (simp_all add: D_def)
  have hl: "of_int H \<le> h" and hu: "h \<le> of_int H + 4095 / 4096"
    using Hours_whole_seconds [OF assms] by (simp_all add: h_def H_def)
  have "(of_int (24 * D) :: rat) \<le> of_int H" using HD by (simp only: of_int_le_iff)
  then have l: "of_int D \<le> h / 24" using hl by simp
  have "(of_int H :: rat) \<le> of_int (24 * D + 23)" using HD' by (simp only: of_int_le_iff)
  then have u: "h / 24 \<le> of_int D + 1 - 1 / 131072" using hu by simp
  have D0r: "(0 :: rat) \<le> of_int D" using D0 by simp
  have "of_int D * pow2 0 \<le> f64 (h / 24) \<and>
        f64 (h / 24) \<le> of_int (131072 * D + 131071) * pow2 (- 17)"
  proof (rule f64_between)
    show "\<bar>D\<bar> < 2 ^ 53" using D0 Db by simp
    show "\<bar>131072 * D + 131071\<bar> < 2 ^ 53" using D0 Db by simp
    show "(0 :: rat) \<le> of_int D * pow2 0" using D0r by (simp add: pow2_def)
    show "of_int D * pow2 0 \<le> h / 24" using l by (simp add: pow2_def)
    show "0 \<le> h / 24" using l D0r by simp
    show "h / 24 \<le> of_int (131072 * D + 131071) * pow2 (- 17)"
      using u by (simp add: pow2_def)
  qed simp_all
  then have yl: "of_int D \<le> f64 (h / 24)" and yu: "f64 (h / 24) < of_int D + 1"
    by (simp_all add: pow2_def)
  then have "\<lfloor>f64 (h / 24)\<rfloor> = D" by (simp add: floor_unique)
  moreover have "0 \<le> f64 (h / 24)" using yl D0r by simp
  ultimately have "int_of_float64 (f64_div h 24) = D"
    by (simp add: int_of_float64_def f64_div_def)
  moreover have "D = s div 86400" by (simp add: D_def H_def zdiv_zmult2_eq)
  ultimately show ?thesis by (simp add: h_def)
qed

lemma period_seconds_div:
  assumes "nsec now = 0" and "0 \<le> s" and "s \<le> 9223372036"
    and "unix_sec now = unix_sec start + s"
  shows "period now = s div 604800"
proof -
  have "Sub now start = s * 1000000000"
    using assms by (simp add: Sub_def start_def minDuration_def maxDuration_def)
  moreover have "0 \<le> s div 86400" using assms(2) by simp
  moreover have "s div 86400 div 7 = s div 604800" by (simp add: zdiv_zmult2_eq)
  ultimately show ?thesis
    by (simp add: period_def days_whole_seconds [OF assms(2,3)] quo_nonneg)
qed

lemma floor_rat_numeral: "\<lfloor>numeral a / numeral b :: rat\<rfloor> = numeral a div numeral b"
  using floor_divide_of_int_eq [of "numeral a" "numeral b", where ?'a = rat] by simp

lemma Hours_before_boundary: "Hours 239500799999999999 = 66528"
proof -
  have q: "quo 239500799999999999 Hour = 66527"
    by (simp add: quo_nonneg Hour_def)
  have r: "rem 239500799999999999 Hour = 3599999999999"
    by (simp add: rem_def q) (simp add: Hour_def)
  have a: "float64 66527 = 66527"
    using f64_exact_int [of 66527] by (simp add: float64_def)
  have b: "float64 3599999999999 = 3599999999999"
    using f64_exact_int [of 3599999999999] by (simp add: float64_def)
  have f: "f64_div 3599999999999 (60 * 60 * 1000000000) = 9007199254738490 / 9007199254740992"
    unfolding f64_div_def
    by (subst f64_at [of "- 53"]) (simp_all add: pow2_def round_even_def Let_def floor_rat_numeral)
  have h: "f64_add 66527 (9007199254738490 / 9007199254740992) = 66528"
    unfolding f64_add_def
    by (subst f64_at [of "- 36"]) (simp_all add: pow2_def round_even_def Let_def floor_rat_numeral)
  show ?thesis
    by (simp only: Hours_def q r Let_def a b f h)
qed





subsection \<open>Reading a target back\<close>
















subsection \<open>Rankings with another order of equal view counts\<close>

lemma views_of_any_ranking:
  assumes "mset ys = mset v" and "sorted_wrt (\<lambda>a b. Views a \<ge> Views b) ys"
  shows "map Views ys = map Views (sortByView v)"
proof -
  have asc: "sorted (rev (map Views zs))" if "sorted_wrt (\<lambda>a b. Views a \<ge> Views b) zs" for zs
    using that by (simp add: sorted_wrt_rev sorted_wrt_map flip: rev_map)
  have "mset (rev (map Views ys)) = mset (map Views v)" using assms(1) by simp
  then have a: "sort (map Views v) = rev (map Views ys)"
    using asc [OF assms(2)] by (rule properties_for_sort)
  have "mset (rev (map Views (sortByView v))) = mset (map Views v)"
    by (simp add: mset_sortByView)
  then have "sort (map Views v) = rev (map Views (sortByView v))"
    using asc [OF sorted_sortByView] by (rule properties_for_sort)
  with a show ?thesis by simp
qed

section \<open>The claims\<close>

text \<open>
  C1, as the code has it.  When the worker pool answers every category without error, the
  answers hold at least one entry in total and the limit of the widget is not negative (as
  after \<^verbatim>\<open>initialize\<close>), then \<^verbatim>\<open>fetchBilibiliClassifyUploads\<close> returns the \<^verbatim>\<open>nil\<close> error
  with all the entries sorted by view count in descending order, and \<^verbatim>\<open>update\<close> stores the
  first \<^verbatim>\<open>Limit\<close> of them: at most \<^verbatim>\<open>Limit\<close> videos, still sorted.
\<close>

theorem complete_sorted_and_limited:
  assumes "workerPoolDo (buildRequests clock 0 (Classify w)) = (responses, errs, None)"
    and "length errs = length responses" and "length (Classify w) = length responses"
    and "\<forall>e \<in> set errs. e = None"
    and "succeededEntries responses errs \<noteq> []"
    and "0 \<le> Limit w"
  shows "\<exists>videos w'.
    fetchBilibiliClassifyUploads workerPoolDo clock
      (Classify w) (VideoUrlTemplate w) (IncludeShorts w) = Inr (videos, None) \<and>
    sorted_wrt (\<lambda>a b. Views a \<ge> Views b) videos \<and>
    mset videos = mset (succeededEntries responses errs) \<and>
    update workerPoolDo clock w = Inr w' \<and>
    Videos w' = take (nat (Limit w)) videos \<and>
    sorted_wrt (\<lambda>a b. Views a \<ge> Views b) (Videos w') \<and>
    int (length (Videos w')) \<le> Limit w"
proof -
  let ?videos = "sortByView (succeededEntries responses errs)"
  have f0: "failures errs = 0" using assms(4) by (simp add: failures_0_iff)
  have fetch: "fetchBilibiliClassifyUploads workerPoolDo clock
      (Classify w) (VideoUrlTemplate w) (IncludeShorts w) = Inr (?videos, None)"
    using assms(1,2,3,5) f0 by (simp add: fetch_aligned)
  have srt: "sorted_wrt (\<lambda>a b. Views a \<ge> Views b) ?videos" by (rule sorted_sortByView)
  have upd: "update workerPoolDo clock w =
      Inr (w\<lparr>base := (base w)\<lparr>Error := None, Notice := None\<rparr>,
             Videos := take (nat (Limit w)) ?videos\<rparr>)"
    using assms(6) by (simp add: update_def fetch canContinueUpdateAfterHandlingErr_def Let_def)
  show ?thesis
    using assms(6) by (simp add: fetch upd srt mset_sortByView sorted_wrt_take)
qed

theorem complete_sorted_and_limited_witness:
  "\<exists>videos w'.
    fetchBilibiliClassifyUploads pool_all_ok clock0
      (Classify widget1) (VideoUrlTemplate widget1) (IncludeShorts widget1) = Inr (videos, None) \<and>
    sorted_wrt (\<lambda>a b. Views a \<ge> Views b) videos \<and>
    mset videos = mset (map toVideo [entry ''BV1'' 100, entry ''BV2'' 5, entry ''BV3'' 300]) \<and>
    update pool_all_ok clock0 widget1 = Inr w' \<and>
    Videos w' = take 2 videos \<and>
    sorted_wrt (\<lambda>a b. Views a \<ge> Views b) (Videos w') \<and>
    int (length (Videos w')) \<le> 2"
  using complete_sorted_and_limited [of pool_all_ok clock0 widget1
      "[\<lparr>Data_List = [entry ''BV1'' 100, entry ''BV2'' 5]\<rparr>, \<lparr>Data_List = [entry ''BV3'' 300]\<rparr>]"
      "[None, None]"]
  by (simp add: pool_all_ok_def widget1_def succeededEntries_def)

text \<open>
  C1 as stated fails: a category list whose fetches all succeed with zero entries ends in
  the Empty outcome, not in Complete.  The instance is the spec's own example of the
  category \<^verbatim>\<open>"history"\<close> returning an empty list.
\<close>

theorem all_succeed_zero_entries_is_empty:
  "pool_history_empty (buildRequests clock0 0 [''history'']) = ([\<lparr>Data_List = []\<rparr>], [None], None) \<and>
   fetchBilibiliClassifyUploads pool_history_empty clock0 [''history''] [] False =
     Inr ([], Some errNoContent)"
  by (simp add: fetchBilibiliClassifyUploads_def pool_history_empty_def)

text \<open>
  C2. Whatever the number of failed categories: when every category failed or returned
  zero entries, so that the merged list is empty after the loop,
  \<^verbatim>\<open>fetchBilibiliClassifyUploads\<close> returns no video and \<^verbatim>\<open>errNoContent\<close>, never the partial
  error.
\<close>

theorem empty_takes_priority:
  assumes "workerPoolDo (buildRequests clock 0 classify) = (responses, errs, None)"
    and "length errs = length responses" and "length classify = length responses"
    and "\<forall>(response, e) \<in> set (zip responses errs). e = None \<longrightarrow> Data_List response = []"
  shows "fetchBilibiliClassifyUploads workerPoolDo clock classify videoUrlTemplate includeShorts =
    Inr ([], Some errNoContent)"
proof -
  have "succeededEntries responses errs = []"
    using assms(2,4) by (simp add: succeededEntries_Nil_iff)
  then show ?thesis
    using assms(1,2,3) by (simp add: fetch_aligned)
qed

theorem empty_takes_priority_witness:
  "fetchBilibiliClassifyUploads pool_all_failed clock0 [''all'', ''weekly''] [] False =
     Inr ([], Some errNoContent) \<and>
   fetchBilibiliClassifyUploads pool_failed_and_empty clock0 [''history'', ''weekly''] [] False =
     Inr ([], Some errNoContent)"
  using empty_takes_priority [of pool_all_failed clock0 "[''all'', ''weekly'']"
      "[\<lparr>Data_List = []\<rparr>, \<lparr>Data_List = []\<rparr>]" "[Some ''timeout'', Some ''bad json'']" "[]" False]
    empty_takes_priority [of pool_failed_and_empty clock0 "[''history'', ''weekly'']"
      "[\<lparr>Data_List = []\<rparr>, \<lparr>Data_List = []\<rparr>]" "[None, Some ''timeout'']" "[]" False]
  by (simp add: pool_all_failed_def pool_failed_and_empty_def)

text \<open>
  C3. When \<open>k\<close> of the \<open>N\<close> categories failed, \<open>1 \<le> k < N\<close>, and the others returned at
  least one entry in total, \<^verbatim>\<open>fetchBilibiliClassifyUploads\<close> returns the error wrapping
  \<^verbatim>\<open>errPartialContent\<close> whose text carries the count \<open>k\<close>, together with videos that are, as a
  multiset, exactly the entries of the categories that succeeded: none is dropped and none
  comes from elsewhere.
\<close>

theorem partial_keeps_succeeded:
  assumes "workerPoolDo (buildRequests clock 0 classify) = (responses, errs, None)"
    and "length errs = length responses" and "length classify = length responses"
    and "failures errs = k" and "1 \<le> k" and "k < length classify"
    and "succeededEntries responses errs \<noteq> []"
  shows "\<exists>videos.
    fetchBilibiliClassifyUploads workerPoolDo clock classify videoUrlTemplate includeShorts =
      Inr (videos, Some (Errorf_w errPartialContent
        ('': missing videos from '' @ fmt_d (int k) @ '' channels''))) \<and>
    mset videos = mset (succeededEntries responses errs) \<and>
    errors_Is (Errorf_w errPartialContent
        ('': missing videos from '' @ fmt_d (int k) @ '' channels'')) errPartialContent"
  using assms by (simp add: fetch_aligned mset_sortByView)

theorem partial_keeps_succeeded_witness:
  "\<exists>videos.
    fetchBilibiliClassifyUploads pool_weekly_failed clock0 [''all'', ''weekly''] [] False =
      Inr (videos, Some (Errorf_w errPartialContent '': missing videos from 1 channels'')) \<and>
    mset videos =
      mset (map toVideo [entry ''BV1'' 100, entry ''BV2'' 5, entry ''BV3'' 300])"
  using partial_keeps_succeeded [of pool_weekly_failed clock0 "[''all'', ''weekly'']"
      "[\<lparr>Data_List = [entry ''BV1'' 100, entry ''BV2'' 5, entry ''BV3'' 300]\<rparr>, \<lparr>Data_List = []\<rparr>]"
      "[None, Some ''timeout'']" 1 "[]" False]
  by (simp add: pool_weekly_failed_def failures_def succeededEntries_def fmt_d_def digits_lt10)

text \<open>
  C4. For every widget: when the fetch of a refresh ends in the Empty outcome (an error that
  is \<^verbatim>\<open>errNoContent\<close>), \<^verbatim>\<open>update\<close> returns with the \<^verbatim>\<open>Videos\<close> field as it was and the error
  surfaced on the widget.
\<close>

theorem update_empty_keeps_videos:
  assumes "fetchBilibiliClassifyUploads workerPoolDo clock
             (Classify w) (VideoUrlTemplate w) (IncludeShorts w) = Inr (videos, Some e)"
    and "errors_Is e errNoContent"
  shows "\<exists>w'. update workerPoolDo clock w = Inr w' \<and> Videos w' = Videos w \<and>
           Error (base w') = Some e"
  using assms errors_Is_sentinels [OF assms(2)]
  by (simp add: update_def canContinueUpdateAfterHandlingErr_def)

theorem update_empty_keeps_videos_witness:
  "\<exists>w'. update pool_all_failed clock0 widget1 = Inr w' \<and> Videos w' = [toVideo (entry ''BV0'' 1)] \<and>
     Error (base w') = Some errNoContent"
proof -
  have "fetchBilibiliClassifyUploads pool_all_failed clock0
     (Classify widget1) (VideoUrlTemplate widget1) (IncludeShorts widget1) = Inr ([], Some errNoContent)"
    by (simp add: fetchBilibiliClassifyUploads_def pool_all_failed_def widget1_def)
  from update_empty_keeps_videos [OF this] show ?thesis
    by (simp add: widget1_def)
qed

text \<open>
  C5. A category that succeeded with zero entries, at any position of the category list,
  leaves \<^verbatim>\<open>fetchBilibiliClassifyUploads\<close> with the result it has without that category:
  the same videos and the same error, so the same failure count in a partial outcome.  The
  category contributes no entry and is not counted as failed.
\<close>

theorem zero_entries_not_a_failure:
  assumes "workerPoolDo (buildRequests clock 0 (cs1 @ c # cs2)) =
             (rs1 @ r # rs2, es1 @ None # es2, None)"
    and "workerPoolDo' (buildRequests clock' 0 (cs1 @ cs2)) = (rs1 @ rs2, es1 @ es2, None)"
    and "length es1 = length rs1" and "length cs1 = length rs1"
    and "Data_List r = []"
  shows "fetchBilibiliClassifyUploads workerPoolDo clock (cs1 @ c # cs2)
           videoUrlTemplate includeShorts =
         fetchBilibiliClassifyUploads workerPoolDo' clock' (cs1 @ cs2)
           videoUrlTemplate includeShorts"
  using assms(1,2) collect_skips_empty [OF assms(3,4,5)]
  by (simp add: fetchBilibiliClassifyUploads_def)

theorem zero_entries_not_a_failure_witness:
  "fetchBilibiliClassifyUploads pool_history_no_entries clock0 [''all'', ''history'', ''weekly'']
     [] False =
   fetchBilibiliClassifyUploads pool_weekly_failed clock0 [''all'', ''weekly''] [] False \<and>
   snd (projr (fetchBilibiliClassifyUploads pool_history_no_entries clock0
     [''all'', ''history'', ''weekly''] [] False)) =
   Some (Errorf_w errPartialContent '': missing videos from 1 channels'')"
proof -
  have "fetchBilibiliClassifyUploads pool_history_no_entries clock0
      ([''all''] @ ''history'' # [''weekly'']) [] False =
    fetchBilibiliClassifyUploads pool_weekly_failed clock0 ([''all''] @ [''weekly'']) [] False"
    by (rule zero_entries_not_a_failure
          [of _ _ _ _ _ "[\<lparr>Data_List = [entry ''BV1'' 100, entry ''BV2'' 5, entry ''BV3'' 300]\<rparr>]"
             "\<lparr>Data_List = []\<rparr>" "[\<lparr>Data_List = []\<rparr>]" "[None]" "[Some ''timeout'']"])
       (simp_all add: pool_history_no_entries_def pool_weekly_failed_def)
  moreover have "snd (projr (fetchBilibiliClassifyUploads pool_weekly_failed clock0
      [''all'', ''weekly''] [] False)) =
    Some (Errorf_w errPartialContent '': missing videos from 1 channels'')"
    by (simp add: fetchBilibiliClassifyUploads_def pool_weekly_failed_def fmt_d_def digits_lt10)
  ultimately show ?thesis by simp
qed

text \<open>
  C6. For every widget, \<^verbatim>\<open>initialize\<close> replaces a limit of 0 or less by 25, a
  \<^verbatim>\<open>CollapseAfterRows\<close> that is 0 or less than -1 by 4 and a \<^verbatim>\<open>CollapseAfter\<close> that is 0 or
  less than -1 by 7; every other value is kept, in particular a threshold of exactly -1; the
  error returned is \<^verbatim>\<open>nil\<close>.
\<close>

theorem initialize_defaults:
  "Limit (fst (initialize w)) = (if Limit w \<le> 0 then 25 else Limit w) \<and>
   CollapseAfterRows (fst (initialize w)) =
     (if CollapseAfterRows w = 0 \<or> CollapseAfterRows w < - 1 then 4 else CollapseAfterRows w) \<and>
   CollapseAfter (fst (initialize w)) =
     (if CollapseAfter w = 0 \<or> CollapseAfter w < - 1 then 7 else CollapseAfter w) \<and>
   (CollapseAfterRows w = - 1 \<longrightarrow> CollapseAfterRows (fst (initialize w)) = - 1) \<and>
   (CollapseAfter w = - 1 \<longrightarrow> CollapseAfter (fst (initialize w)) = - 1) \<and>
   snd (initialize w) = None"
  by (simp add: initialize_def Let_def)

theorem initialize_defaults_witness:
  "CollapseAfterRows widget0 = - 1 \<and> CollapseAfter widget0 = - 1 \<and>
   Limit (fst (initialize widget0)) = 25 \<and>
   CollapseAfterRows (fst (initialize widget0)) = - 1 \<and>
   CollapseAfter (fst (initialize widget0)) = - 1 \<and>
   Limit (fst (initialize widget_unset)) = 25 \<and>
   CollapseAfterRows (fst (initialize widget_unset)) = 4 \<and>
   CollapseAfter (fst (initialize widget_unset)) = 7"
  using initialize_defaults [of widget0] initialize_defaults [of widget_unset]
  by (simp add: widget0_def widget_unset_def)




text \<open>
  C8. The claim: for \<^verbatim>\<open>"weekly"\<close> the period index in the target is the number of whole
  7-day periods between 2019-03-22 00:00:00 UTC and the clock reading.  The code breaks it
  just before a period ends.  One nanosecond before the end of the 396th period, 395 whole
  periods have elapsed and the target carries \<^verbatim>\<open>number=396\<close>: \<^verbatim>\<open>duration.Hours()\<close> is
  \<open>66527 + 3599999999999 / 3600000000000\<close> in \<^verbatim>\<open>float64\<close>, which rounds to \<open>66528\<close>.
\<close>

theorem period_before_boundary:
  "wholePeriods t_before_boundary = 395 \<and> period t_before_boundary = 396 \<and>
   getBilibiliFeedURL t_before_boundary t_before_boundary ''weekly'' =
     ''https://api.bilibili.com/x/web-interface/popular/series/one?number=396&wts=1792713599''"
proof -
  have d: "Sub t_before_boundary start = 239500799999999999"
    by (simp add: Sub_def t_before_boundary_def start_def minDuration_def maxDuration_def)
  have y: "f64_div 66528 24 = 2772"
    using f64_exact_int [of 2772] by (simp add: f64_div_def)
  have p: "period t_before_boundary = 396"
    by (simp add: period_def d Hours_before_boundary y int_of_float64_def quo_nonneg)
  have w: "wholePeriods t_before_boundary = 395"
    by (simp add: wholePeriods_def d quo_nonneg Hour_def)
  have "getBilibiliFeedURL t_before_boundary t_before_boundary ''weekly'' =
     ''https://api.bilibili.com/x/web-interface/popular/series/one?number=396&wts=1792713599''"
    by (simp add: getBilibiliFeedURL_def p)
       (simp add: Unix_def t_before_boundary_def fmt_d_def digits_lt10 digits_ge10)
  with p w show ?thesis by simp
qed

text \<open>
  C9. For every category other than \<^verbatim>\<open>"all"\<close>, \<^verbatim>\<open>"weekly"\<close> and \<^verbatim>\<open>"history"\<close>,
  \<^verbatim>\<open>getBilibiliFeedURL\<close> returns the ranking endpoint with the Unix time of the clock as
  \<^verbatim>\<open>wts\<close>; the function has no error result.
\<close>

theorem unknown_category_falls_back:
  assumes "classify \<noteq> ''all''" and "classify \<noteq> ''weekly''" and "classify \<noteq> ''history''"
  shows "getBilibiliFeedURL now0 now1 classify =
    ''https://api.bilibili.com/x/web-interface/ranking/v2?rid=0&type=all&wts=''
      @ fmt_d (Unix now0)"
  using assms by (simp add: getBilibiliFeedURL_def)

theorem unknown_category_falls_back_witness:
  "getBilibiliFeedURL t_comment t_comment ''rank/all'' =
    ''https://api.bilibili.com/x/web-interface/ranking/v2?rid=0&type=all&wts=1742301628''"
proof -
  have "getBilibiliFeedURL t_comment t_comment ''rank/all'' =
    ''https://api.bilibili.com/x/web-interface/ranking/v2?rid=0&type=all&wts=''
      @ fmt_d (Unix t_comment)"
    by (rule unknown_category_falls_back) simp_all
  then show ?thesis
    by (simp add: t_comment_def Unix_def fmt_d_def digits_lt10 digits_ge10)
qed

text \<open>
  C10. The arguments \<^verbatim>\<open>videoUrlTemplate\<close> and \<^verbatim>\<open>includeShorts\<close> of
  \<^verbatim>\<open>fetchBilibiliClassifyUploads\<close> do not influence its result: with the same categories,
  clock and worker-pool answers, any two values of them give the same videos and error.
\<close>

theorem fetch_ignores_template_and_shorts:
  "fetchBilibiliClassifyUploads workerPoolDo clock classify videoUrlTemplate includeShorts =
   fetchBilibiliClassifyUploads workerPoolDo clock classify videoUrlTemplate' includeShorts'"
  by (simp add: fetchBilibiliClassifyUploads_def)

text \<open>
  Beyond the claims: for a clock reading on a whole second, from the reference date on and
  within the range of a \<^verbatim>\<open>Duration\<close>, the period index of the code is the number of whole
  7-day periods elapsed.
\<close>

theorem period_on_whole_seconds:
  assumes "nsec now = 0" and "0 \<le> s" and "s \<le> 9223372036"
    and "unix_sec now = unix_sec start + s"
  shows "period now = wholePeriods now \<and> wholePeriods now = s div 604800"
proof -
  have "Sub now start = s * 1000000000"
    using assms by (simp add: Sub_def start_def minDuration_def maxDuration_def)
  then have "wholePeriods now = s div 604800"
    using assms(2) by (simp add: wholePeriods_def quo_nonneg Hour_def)
  then show ?thesis by (simp add: period_seconds_div [OF assms])
qed

theorem period_on_whole_seconds_witness:
  "period t_weekly = 312 \<and> wholePeriods t_weekly = 312"
  using period_on_whole_seconds [of t_weekly 189014280]
  by (simp add: t_weekly_def start_def)

text \<open>
  Beyond the claims: whichever order a ranking gives to videos with equal view counts, as
  long as it holds the same videos sorted by view count in descending order, its view
  counts, and those of its first \<open>n\<close> videos, are the ones of \<open>sortByView\<close>.
\<close>

theorem ranking_views_unique:
  assumes "mset ys = mset v" and "sorted_wrt (\<lambda>a b. Views a \<ge> Views b) ys"
  shows "map Views ys = map Views (sortByView v) \<and>
         map Views (take n ys) = map Views (take n (sortByView v))"
  using views_of_any_ranking [OF assms] by (simp add: take_map [symmetric])

theorem ranking_views_unique_witness:
  "map Views (take 2 (map toVideo [entry ''BV3'' 300, entry ''BV1'' 100, entry ''BV2'' 5])) =
   map Views (take 2 (sortByView (map toVideo [entry ''BV1'' 100, entry ''BV2'' 5, entry ''BV3'' 300])))"
proof -
  have "map Views (map toVideo [entry ''BV3'' 300, entry ''BV1'' 100, entry ''BV2'' 5]) =
          map Views (sortByView (map toVideo [entry ''BV1'' 100, entry ''BV2'' 5, entry ''BV3'' 300])) \<and>
        map Views (take 2 (map toVideo [entry ''BV3'' 300, entry ''BV1'' 100, entry ''BV2'' 5])) =
          map Views (take 2 (sortByView (map toVideo [entry ''BV1'' 100, entry ''BV2'' 5, entry ''BV3'' 300])))"
    by (rule ranking_views_unique) (simp_all add: toVideo_def entry_def)
  then show ?thesis by simp
qed

end
